theory Spec2Isabelle
  imports Main "HOL-Library.FSet"
begin

section \<open>Errors, sockets and log records\<close>

text \<open>
  A \<open>WebSocket\<close> object is hashed and compared by identity, so a socket handle is
  modelled by a natural number naming the object.
\<close>

type_synonym websocket = nat

text \<open>
  The exceptions that the calls of the source can raise. \<open>RedisConnectionError\<close> is
  \<open>redis.exceptions.ConnectionError\<close>, which is not a subclass of the built-in
  \<open>ConnectionResetError\<close>, \<open>BrokenPipeError\<close> or \<open>RuntimeError\<close>;
  \<open>OtherException\<close> stands for any other subclass of \<open>Exception\<close>.
\<close>

datatype error =
    WebSocketDisconnect
  | ConnectionResetError
  | BrokenPipeError
  | RuntimeError string
  | RedisConnectionError
  | OtherException string

datatype level = INFO | WARNING | ERROR

datatype event =
    WsConnected nat nat nat
  | WsDisconnected nat nat nat
  | LocalBroadcast nat string nat
  | RuntimeErrorRemoving nat string
  | RedisHealthCheckFailed error
  | ShutdownInitiated nat int
  | AllClosed nat
  | ForceShutdown nat nat
  | ShutdownProgress nat nat int
  | ListenerStarted string
  | ListenerStopping
  | ConnectingToRedis
  | StartupComplete
  | ShutdownComplete

type_synonym log = "(level \<times> event) list"

section \<open>The shared store\<close>

text \<open>
  The Redis server as the source uses it: set-valued keys (an absent key is the empty
  set), the commands issued so far, and a schedule of outages. Every command is one round
  trip; it consumes the head of \<open>outages\<close> and fails with \<open>RedisConnectionError\<close>
  when that head is \<open>True\<close>. An exhausted schedule means that the server answers.
\<close>

datatype command =
    DEL string
  | SADD string string
  | SREM string string
  | SCARD string
  | PING
  | SUBSCRIBE string

record redis_server =
  sets :: "string \<Rightarrow> string fset"
  outages :: "bool list"
  journal :: "command list"

definition round_trip :: "command \<Rightarrow> redis_server \<Rightarrow> bool \<times> redis_server" where
  "round_trip c r =
     (case outages r of
        [] \<Rightarrow> (True, r\<lparr>journal := journal r @ [c]\<rparr>)
      | down # rest \<Rightarrow> (\<not> down, r\<lparr>outages := rest, journal := journal r @ [c]\<rparr>))"

definition sadd :: "string \<Rightarrow> string \<Rightarrow> redis_server \<Rightarrow> (error + nat) \<times> redis_server" where
  "sadd key member r =
     (let (ok, r') = round_trip (SADD key member) r in
      if ok
      then (Inr (if member |\<in>| sets r' key then 0 else 1),
            r'\<lparr>sets := (sets r')(key := finsert member (sets r' key))\<rparr>)
      else (Inl RedisConnectionError, r'))"

definition srem :: "string \<Rightarrow> string \<Rightarrow> redis_server \<Rightarrow> (error + nat) \<times> redis_server" where
  "srem key member r =
     (let (ok, r') = round_trip (SREM key member) r in
      if ok
      then (Inr (if member |\<in>| sets r' key then 1 else 0),
            r'\<lparr>sets := (sets r')(key := sets r' key |-| {|member|})\<rparr>)
      else (Inl RedisConnectionError, r'))"

definition scard :: "string \<Rightarrow> redis_server \<Rightarrow> (error + nat) \<times> redis_server" where
  "scard key r =
     (let (ok, r') = round_trip (SCARD key) r in
      if ok then (Inr (fcard (sets r' key)), r') else (Inl RedisConnectionError, r'))"

definition delete :: "string \<Rightarrow> redis_server \<Rightarrow> (error + nat) \<times> redis_server" where
  "delete key r =
     (let (ok, r') = round_trip (DEL key) r in
      if ok
      then (Inr (if sets r' key = {||} then 0 else 1), r'\<lparr>sets := (sets r')(key := {||})\<rparr>)
      else (Inl RedisConnectionError, r'))"

definition ping :: "redis_server \<Rightarrow> (error + bool) \<times> redis_server" where
  "ping r =
     (let (ok, r') = round_trip PING r in
      if ok then (Inr True, r') else (Inl RedisConnectionError, r'))"

definition subscribe :: "string \<Rightarrow> redis_server \<Rightarrow> (error + unit) \<times> redis_server" where
  "subscribe channel r =
     (let (ok, r') = round_trip (SUBSCRIBE channel) r in
      if ok then (Inr (), r') else (Inl RedisConnectionError, r'))"

section \<open>The connection manager\<close>

text \<open>
  \<open>ConnectionManager\<close> of \<open>app/core/connection_manager.py\<close>. The manager holds a
  reference to the shared Redis client; in the state-passing model the server is a field
  of the manager's state and every method returns the state it leaves behind, also when
  it raises: the object outlives the exception.
\<close>

record connection_manager =
  redis :: redis_server
  redis_set_key :: string
  connections :: "websocket list"
  ws_to_id :: "websocket \<rightharpoonup> string"
  worker_id :: nat
  logged :: log

definition ConnectionManager :: "redis_server \<Rightarrow> string \<Rightarrow> nat \<Rightarrow> connection_manager" where
  "ConnectionManager r key pid =
     \<lparr>redis = r, redis_set_key = key, connections = [], ws_to_id = Map.empty,
      worker_id = pid, logged = []\<rparr>"

definition local_active_count :: "connection_manager \<Rightarrow> nat" where
  "local_active_count m = length (connections m)"

definition global_active_count :: "connection_manager \<Rightarrow> (error + nat) \<times> connection_manager" where
  "global_active_count m =
     (let (res, r) = scard (redis_set_key m) (redis m) in (res, m\<lparr>redis := r\<rparr>))"

text \<open>Decimal rendering of the process id inside the f-string of \<open>connect\<close>.\<close>

fun str_nat :: "nat \<Rightarrow> string" where
  "str_nat n =
     (if n < 10 then [char_of (48 + n)]
      else str_nat (n div 10) @ [char_of (48 + n mod 10)])"

declare str_nat.simps [simp del]

text \<open>
  \<open>connect\<close>. The handshake \<open>websocket.accept()\<close> belongs to the transport: its outcome
  (\<open>None\<close> when it returns, \<open>Some e\<close> when it raises \<open>e\<close>) is an argument, and so is the
  token that \<open>uuid4()\<close> draws.
\<close>

definition connect ::
  "websocket \<Rightarrow> error option \<Rightarrow> string \<Rightarrow> connection_manager
     \<Rightarrow> (error + unit) \<times> connection_manager" where
  "connect websocket accept uuid4 m =
     (case accept of
        Some e \<Rightarrow> (Inl e, m)
      | None \<Rightarrow>
          (let conn_id = str_nat (worker_id m) @ '':'' @ uuid4;
               m1 = m\<lparr>connections := connections m @ [websocket]\<rparr>;
               m2 = m1\<lparr>ws_to_id := (ws_to_id m1)(websocket \<mapsto> conn_id)\<rparr>;
               (added, r) = sadd (redis_set_key m2) conn_id (redis m2);
               m3 = m2\<lparr>redis := r\<rparr>
           in case added of
                Inl e \<Rightarrow> (Inl e, m3)
              | Inr _ \<Rightarrow>
                  (case global_active_count m3 of
                     (Inl e, m4) \<Rightarrow> (Inl e, m4)
                   | (Inr global_count, m4) \<Rightarrow>
                       (Inr (),
                        m4\<lparr>logged := logged m4 @
                           [(INFO, WsConnected (worker_id m4) (local_active_count m4)
                                     global_count)]\<rparr>))))"

text \<open>
  \<open>disconnect\<close>. \<open>dict.pop(websocket, None)\<close> yields the identifier or \<open>None\<close>;
  \<open>list.remove\<close> deletes the first occurrence; \<open>if conn_id:\<close> is false for \<open>None\<close>
  and for the empty string.
\<close>

definition disconnect ::
  "websocket \<Rightarrow> connection_manager \<Rightarrow> (error + unit) \<times> connection_manager" where
  "disconnect websocket m =
     (let conn_id = ws_to_id m websocket;
          m1 = m\<lparr>ws_to_id := (ws_to_id m)(websocket := None)\<rparr>;
          m2 = (if websocket \<in> set (connections m1)
                then m1\<lparr>connections := remove1 websocket (connections m1)\<rparr>
                else m1);
          (removed, m3) =
             (case conn_id of
                None \<Rightarrow> (Inr 0, m2)
              | Some c \<Rightarrow>
                  if c \<noteq> []
                  then (let (res, r) = srem (redis_set_key m2) c (redis m2)
                        in (res, m2\<lparr>redis := r\<rparr>))
                  else (Inr 0, m2))
      in case removed of
           Inl e \<Rightarrow> (Inl e, m3)
         | Inr _ \<Rightarrow>
             (case global_active_count m3 of
                (Inl e, m4) \<Rightarrow> (Inl e, m4)
              | (Inr global_count, m4) \<Rightarrow>
                  (Inr (),
                   m4\<lparr>logged := logged m4 @
                      [(INFO, WsDisconnected (worker_id m4) (local_active_count m4)
                                global_count)]\<rparr>)))"

text \<open>
  \<open>broadcast_local\<close>. \<open>send_text ws message\<close> is what the transport does with the write:
  \<open>None\<close> when it returns, \<open>Some e\<close> when it raises \<open>e\<close>. \<open>try_send\<close> is the
  \<open>try\<close> statement in the body of the loop, given the outcome of the write: the three
  \<open>except\<close> clauses in their order, any other exception passing through, and an
  exception that \<open>disconnect\<close> raises inside a handler passing through as well.
\<close>

fun try_send ::
  "error option \<Rightarrow> websocket \<Rightarrow> connection_manager \<Rightarrow> (error + unit) \<times> connection_manager" where
  "try_send None ws m = (Inr (), m)"
| "try_send (Some WebSocketDisconnect) ws m = disconnect ws m"
| "try_send (Some ConnectionResetError) ws m = disconnect ws m"
| "try_send (Some BrokenPipeError) ws m = disconnect ws m"
| "try_send (Some (RuntimeError exc)) ws m =
     disconnect ws
       (m\<lparr>logged := logged m @ [(WARNING, RuntimeErrorRemoving (worker_id m) exc)]\<rparr>)"
| "try_send (Some e) ws m = (Inl e, m)"

text \<open>
  The loop runs over the copy \<open>list(self._connections)\<close> taken before the first send.
  The second component of the result lists the sockets on which \<open>send_text\<close> was awaited,
  in order.
\<close>

fun broadcast_loop ::
  "(websocket \<Rightarrow> error option) \<Rightarrow> websocket list \<Rightarrow> connection_manager
     \<Rightarrow> (error + unit) \<times> websocket list \<times> connection_manager" where
  "broadcast_loop send [] m = (Inr (), [], m)"
| "broadcast_loop send (ws # rest) m =
     (case try_send (send ws) ws m of
        (Inl e, m1) \<Rightarrow> (Inl e, [ws], m1)
      | (Inr _, m1) \<Rightarrow>
          (let (res, attempted, m2) = broadcast_loop send rest m1
           in (res, ws # attempted, m2)))"

definition broadcast_local ::
  "string \<Rightarrow> (websocket \<Rightarrow> string \<Rightarrow> error option) \<Rightarrow> connection_manager
     \<Rightarrow> (error + unit) \<times> websocket list \<times> connection_manager" where
  "broadcast_local message send_text m =
     (let m1 = m\<lparr>logged := logged m @
                 [(INFO, LocalBroadcast (worker_id m) message (local_active_count m))]\<rparr>
      in broadcast_loop (\<lambda>ws. send_text ws message) (connections m1) m1)"


section \<open>Sequences of calls\<close>

text \<open>
  A call on the manager together with what the environment does during it. The manager
  outlives a call that raises, so a sequence of calls threads the state through.
\<close>

datatype call =
    Connect websocket "error option" string
  | Disconnect websocket
  | BroadcastLocal string "websocket \<Rightarrow> string \<Rightarrow> error option"

fun run_call :: "call \<Rightarrow> connection_manager \<Rightarrow> connection_manager" where
  "run_call (Connect ws accept uuid4) m = snd (connect ws accept uuid4 m)"
| "run_call (Disconnect ws) m = snd (disconnect ws m)"
| "run_call (BroadcastLocal message send_text) m = snd (snd (broadcast_local message send_text m))"

fun run_calls :: "call list \<Rightarrow> connection_manager \<Rightarrow> connection_manager" where
  "run_calls [] m = m"
| "run_calls (c # cs) m = run_calls cs (run_call c m)"

text \<open>
  Every connect whose handshake is accepted is on a socket that is not in the ordered
  collection at that moment.
\<close>

fun fresh_connects :: "call list \<Rightarrow> connection_manager \<Rightarrow> bool" where
  "fresh_connects [] m = True"
| "fresh_connects (Connect ws None uuid4 # cs) m =
     (ws \<notin> set (connections m) \<and> fresh_connects cs (run_call (Connect ws None uuid4) m))"
| "fresh_connects (c # cs) m = fresh_connects cs (run_call c m)"

fun registry_call :: "call \<Rightarrow> bool" where
  "registry_call (BroadcastLocal message send_text) = False"
| "registry_call c = True"

text \<open>
  The reference for the local count, read off the calls alone: the sockets that have been
  connected (their handshake accepted) and not yet disconnected.
\<close>

fun connected_not_disconnected :: "call list \<Rightarrow> websocket set \<Rightarrow> websocket set" where
  "connected_not_disconnected [] live = live"
| "connected_not_disconnected (Connect ws None uuid4 # cs) live =
     connected_not_disconnected cs (insert ws live)"
| "connected_not_disconnected (Disconnect ws # cs) live =
     connected_not_disconnected cs (live - {ws})"
| "connected_not_disconnected (c # cs) live = connected_not_disconnected cs live"

section \<open>Observations used in the statements\<close>

definition next_fails :: "redis_server \<Rightarrow> bool" where
  "next_fails r = (case outages r of [] \<Rightarrow> False | down # _ \<Rightarrow> down)"

definition reachable :: "redis_server \<Rightarrow> bool" where
  "reachable r = (True \<notin> set (outages r))"

definition after_trip :: "command \<Rightarrow> redis_server \<Rightarrow> redis_server" where
  "after_trip c r = r\<lparr>outages := tl (outages r), journal := journal r @ [c]\<rparr>"

definition registries ::
  "connection_manager
     \<Rightarrow> websocket list \<times> (websocket \<rightharpoonup> string) \<times> (string \<Rightarrow> string fset)" where
  "registries m = (connections m, ws_to_id m, sets (redis m))"



text \<open>The exceptions for which \<open>broadcast_local\<close> has an \<open>except\<close> clause.\<close>

fun caught :: "error \<Rightarrow> bool" where
  "caught WebSocketDisconnect = True"
| "caught ConnectionResetError = True"
| "caught BrokenPipeError = True"
| "caught (RuntimeError exc) = True"
| "caught e = False"

text \<open>A write that returns, or raises an exception that a handler catches.\<close>

fun tolerated :: "error option \<Rightarrow> bool" where
  "tolerated None = True"
| "tolerated (Some e) = caught e"

text \<open>The manager after the \<open>try\<close> statement has run for each socket of a list in turn.\<close>

fun after_sends ::
  "(websocket \<Rightarrow> error option) \<Rightarrow> websocket list \<Rightarrow> connection_manager \<Rightarrow> connection_manager" where
  "after_sends send [] m = m"
| "after_sends send (ws # rest) m = after_sends send rest (snd (try_send (send ws) ws m))"

section \<open>Lifecycle\<close>

text \<open>
  The options of \<open>app/config.py\<close> that the lifecycle reads; \<open>default_config\<close> holds the
  values used when the environment sets none. Timeout and log interval are whole seconds.
\<close>

record config =
  redis_broadcast_channel :: string
  ws_connections_key :: string
  graceful_shutdown_timeout :: int
  graceful_shutdown_log_interval :: int

definition default_config :: config where
  "default_config =
     \<lparr>redis_broadcast_channel = ''ws:broadcast'', ws_connections_key = ''ws:connections'',
      graceful_shutdown_timeout = 30, graceful_shutdown_log_interval = 5\<rparr>"

text \<open>
  \<open>LifespanContext\<close>. The Redis client is the one inside the manager; \<open>listener_task\<close>
  is \<open>None\<close> while the task runs and holds its outcome once it has been awaited.
\<close>

record lifespan_context =
  manager :: connection_manager
  pubsub_channels :: "string list"
  pubsub_closed :: bool
  redis_closed :: bool
  stop_event :: bool
  listener_task :: "(error + unit) option"

definition setup_lifespan :: "config \<Rightarrow> nat \<Rightarrow> redis_server \<Rightarrow> error + lifespan_context" where
  "setup_lifespan cfg pid r0 =
     (let (deleted, r1) = delete (ws_connections_key cfg) r0 in
      case deleted of
        Inl e \<Rightarrow> Inl e
      | Inr _ \<Rightarrow>
          (let m = ConnectionManager r1 (ws_connections_key cfg) pid;
               (subscribed, r2) = subscribe (redis_broadcast_channel cfg) (redis m)
           in case subscribed of
                Inl e \<Rightarrow> Inl e
              | Inr _ \<Rightarrow>
                  Inr \<lparr>manager = m\<lparr>redis := r2,
                                    logged := [(INFO, ConnectingToRedis), (INFO, StartupComplete)]\<rparr>,
                       pubsub_channels = [redis_broadcast_channel cfg],
                       pubsub_closed = False, redis_closed = False,
                       stop_event = False, listener_task = None\<rparr>))"




text \<open>
  The clock of the drain loop, for the statements: the time at which iteration \<open>i\<close>
  starts and the value of \<open>now\<close> it reads.
\<close>

fun iteration_start :: "int \<Rightarrow> int \<Rightarrow> (nat \<Rightarrow> nat) \<Rightarrow> nat \<Rightarrow> int" where
  "iteration_start start interval delay 0 = start"
| "iteration_start start interval delay (Suc i) =
     iteration_start start interval delay i + int (delay i) + max 0 interval * 1000000"

definition reading :: "int \<Rightarrow> int \<Rightarrow> (nat \<Rightarrow> nat) \<Rightarrow> nat \<Rightarrow> int" where
  "reading start interval delay i = iteration_start start interval delay i + int (delay i)"

text \<open>
  \<open>_broadcast_listener\<close>. \<open>is_set i\<close> is what the \<open>i\<close>-th evaluation of
  \<open>stop_event.is_set()\<close> yields, \<open>get_message i\<close> what the \<open>i\<close>-th poll yields
  (\<open>Inr None\<close> on a timeout) and \<open>send_text i\<close> how the transport treats the writes of
  iteration \<open>i\<close>. With \<open>decode_responses=True\<close> the payload is a \<open>str\<close>, on which
  \<open>str()\<close> is the identity. The result carries the number of polls made and the
  payloads handed to \<open>broadcast_local\<close>, in order.
\<close>

record pubsub_message =
  mtype :: string
  channel :: string
  data :: string

partial_function (option) listener_loop ::
  "(nat \<Rightarrow> bool) \<Rightarrow> (nat \<Rightarrow> error + pubsub_message option)
     \<Rightarrow> (nat \<Rightarrow> websocket \<Rightarrow> string \<Rightarrow> error option)
     \<Rightarrow> nat \<Rightarrow> string list \<Rightarrow> connection_manager
     \<Rightarrow> ((error + unit) \<times> nat \<times> string list \<times> connection_manager) option" where
  "listener_loop is_set get_message send_text i forwarded m =
     (if is_set i
      then Some (Inr (), i, forwarded, m\<lparr>logged := logged m @ [(INFO, ListenerStopping)]\<rparr>)
      else (case get_message i of
              Inl e \<Rightarrow> Some (Inl e, Suc i, forwarded, m)
            | Inr None \<Rightarrow> listener_loop is_set get_message send_text (Suc i) forwarded m
            | Inr (Some msg) \<Rightarrow>
                (case broadcast_local (data msg) (send_text i) m of
                   (Inl e, attempted, m1) \<Rightarrow> Some (Inl e, Suc i, forwarded @ [data msg], m1)
                 | (Inr _, attempted, m1) \<Rightarrow>
                     listener_loop is_set get_message send_text (Suc i)
                       (forwarded @ [data msg]) m1)))"

definition broadcast_listener ::
  "config \<Rightarrow> (nat \<Rightarrow> bool) \<Rightarrow> (nat \<Rightarrow> error + pubsub_message option)
     \<Rightarrow> (nat \<Rightarrow> websocket \<Rightarrow> string \<Rightarrow> error option) \<Rightarrow> connection_manager
     \<Rightarrow> ((error + unit) \<times> nat \<times> string list \<times> connection_manager) option" where
  "broadcast_listener cfg is_set get_message send_text m =
     listener_loop is_set get_message send_text 0 []
       (m\<lparr>logged := logged m @ [(INFO, ListenerStarted (redis_broadcast_channel cfg))]\<rparr>)"

text \<open>The payloads of the messages that the polls \<open>i, \<dots>, n - 1\<close> return.\<close>

definition received :: "(nat \<Rightarrow> error + pubsub_message option) \<Rightarrow> nat \<Rightarrow> nat \<Rightarrow> string list" where
  "received get_message i n =
     concat (map (\<lambda>j. case get_message j of Inr (Some msg) \<Rightarrow> [data msg] | _ \<Rightarrow> [])
               [i..<n])"

text \<open>
  What iteration \<open>j\<close> of the relay does to the manager: \<open>broadcast_local\<close> runs on the
  payload of the message that poll \<open>j\<close> returns, and the manager keeps the state it is
  left in also when that call raises; a poll that times out or raises leaves it as it is.
  \<open>after_polls\<close> is the manager after the iterations \<open>i, \<dots>, n - 1\<close>.
\<close>

definition relay_step ::
  "(nat \<Rightarrow> error + pubsub_message option) \<Rightarrow> (nat \<Rightarrow> websocket \<Rightarrow> string \<Rightarrow> error option)
     \<Rightarrow> nat \<Rightarrow> connection_manager \<Rightarrow> connection_manager" where
  "relay_step get_message send_text j m =
     (case get_message j of
        Inr (Some msg) \<Rightarrow> snd (snd (broadcast_local (data msg) (send_text j) m))
      | _ \<Rightarrow> m)"

definition after_polls ::
  "(nat \<Rightarrow> error + pubsub_message option) \<Rightarrow> (nat \<Rightarrow> websocket \<Rightarrow> string \<Rightarrow> error option)
     \<Rightarrow> nat \<Rightarrow> nat \<Rightarrow> connection_manager \<Rightarrow> connection_manager" where
  "after_polls get_message send_text i n m = fold (relay_step get_message send_text) [i..<n] m"

section \<open>The health endpoint\<close>

text \<open>
  \<open>health\<close> of \<open>app/api/routes.py\<close>, on the manager that the dependencies resolve.
  Only the \<open>ping\<close> is inside the \<open>try\<close>.
\<close>

record health_response =
  status :: string
  redis_ok :: bool
  global_active_connections :: nat

definition health :: "connection_manager \<Rightarrow> (error + health_response) \<times> connection_manager" where
  "health m =
     (let (pong, r1) = ping (redis m);
          (ok, m1) =
             (case pong of
                Inl exc \<Rightarrow>
                  (False, m\<lparr>redis := r1,
                            logged := logged m @ [(WARNING, RedisHealthCheckFailed exc)]\<rparr>)
              | Inr p \<Rightarrow> (p, m\<lparr>redis := r1\<rparr>))
      in case global_active_count m1 of
           (Inl e, m2) \<Rightarrow> (Inl e, m2)
         | (Inr global_count, m2) \<Rightarrow>
             (Inr \<lparr>status = (if ok then ''ok'' else ''degraded''), redis_ok = ok,
                   global_active_connections = global_count\<rparr>, m2))"

section \<open>Example states\<close>

definition stale_redis :: redis_server where
  "stale_redis =
     \<lparr>sets = (\<lambda>k. {||})(''ws:connections'' := {|''41:old-1'', ''41:old-2''|}),
      outages = [], journal = []\<rparr>"

definition fresh_redis :: redis_server where
  "fresh_redis = \<lparr>sets = (\<lambda>k. {||}), outages = [], journal = []\<rparr>"

definition fresh_manager :: connection_manager where
  "fresh_manager = ConnectionManager fresh_redis ''ws:connections'' 7"

text \<open>
  The manager of worker 7 after \<open>connect\<close> has been called once, and twice, on socket 1,
  the transport accepting the handshake each time.
\<close>

definition once_connected :: connection_manager where
  "once_connected = snd (connect 1 None ''a'' fresh_manager)"


text \<open>
  Sockets 1 and 2 registered with worker 7; the same state at a moment when the shared
  store does not answer the next command; a transport on which every write to socket 1
  ends in a broken pipe.
\<close>

definition two_connected :: connection_manager where
  "two_connected = snd (connect 2 None ''b'' once_connected)"

definition store_down :: connection_manager where
  "store_down = two_connected\<lparr>redis := (redis two_connected)\<lparr>outages := [True]\<rparr>\<rparr>"

definition broken_pipe_1 :: "websocket \<Rightarrow> string \<Rightarrow> error option" where
  "broken_pipe_1 ws message = (if ws = 1 then Some BrokenPipeError else None)"

definition example_calls :: "call list" where
  "example_calls =
     [Connect 1 None ''a'', Connect 2 None ''b'', Connect 3 (Some (RuntimeError ''refused'')) ''c'',
      Disconnect 1, Disconnect 1]"



text \<open>
  A relay run: the stop event is seen set at the fourth check, the second poll returns
  the message \<open>hi\<close>, every other poll times out, and every write to socket 1 ends in
  a broken pipe.
\<close>

definition stop_at_3 :: "nat \<Rightarrow> bool" where
  "stop_at_3 i = (3 \<le> i)"

definition hi_at_1 :: "nat \<Rightarrow> error + pubsub_message option" where
  "hi_at_1 i =
     (if i = 1 then Inr (Some \<lparr>mtype = ''message'', channel = ''ws:broadcast'', data = ''hi''\<rparr>)
      else Inr None)"

definition pipe_1_broken :: "nat \<Rightarrow> websocket \<Rightarrow> string \<Rightarrow> error option" where
  "pipe_1_broken i = broken_pipe_1"

section \<open>Round trips\<close>

lemma round_trip_eq: "round_trip c r = (\<not> next_fails r, after_trip c r)"
  by (simp add: round_trip_def next_fails_def after_trip_def split: list.splits)

lemma after_trip_simps [simp]:
  "sets (after_trip c r) = sets r"
  "outages (after_trip c r) = tl (outages r)"
  "journal (after_trip c r) = journal r @ [c]"
  by (simp_all add: after_trip_def)

lemma srem_eq:
  "srem key member r =
     (if next_fails r then (Inl RedisConnectionError, after_trip (SREM key member) r)
      else (Inr (if member |\<in>| sets r key then 1 else 0),
            (after_trip (SREM key member) r)\<lparr>sets := (sets r)(key := sets r key |-| {|member|})\<rparr>))"
  by (simp add: srem_def round_trip_eq)

lemma sadd_eq:
  "sadd key member r =
     (if next_fails r then (Inl RedisConnectionError, after_trip (SADD key member) r)
      else (Inr (if member |\<in>| sets r key then 0 else 1),
            (after_trip (SADD key member) r)\<lparr>sets := (sets r)(key := finsert member (sets r key))\<rparr>))"
  by (simp add: sadd_def round_trip_eq)

lemma scard_eq:
  "scard key r =
     (if next_fails r then (Inl RedisConnectionError, after_trip (SCARD key) r)
      else (Inr (fcard (sets r key)), after_trip (SCARD key) r))"
  by (simp add: scard_def round_trip_eq)

lemma global_active_count_eq:
  "global_active_count m =
     (if next_fails (redis m)
      then (Inl RedisConnectionError, m\<lparr>redis := after_trip (SCARD (redis_set_key m)) (redis m)\<rparr>)
      else (Inr (fcard (sets (redis m) (redis_set_key m))),
            m\<lparr>redis := after_trip (SCARD (redis_set_key m)) (redis m)\<rparr>))"
  by (simp add: global_active_count_def scard_eq)

lemmas disconnect_unfold = disconnect_def global_active_count_eq srem_eq Let_def
lemmas connect_unfold = connect_def global_active_count_eq sadd_eq Let_def

section \<open>Effect of disconnect\<close>

lemma connections_disconnect [simp]:
  "connections (snd (disconnect ws m)) = remove1 ws (connections m)"
  by (simp add: disconnect_unfold remove1_idem split: option.splits)

lemma ws_to_id_disconnect [simp]:
  "ws_to_id (snd (disconnect ws m)) = (ws_to_id m)(ws := None)"
  by (simp add: disconnect_unfold split: option.splits)

lemma key_disconnect [simp]:
  "redis_set_key (snd (disconnect ws m)) = redis_set_key m"
  by (simp add: disconnect_unfold split: option.splits)

lemma worker_disconnect [simp]:
  "worker_id (snd (disconnect ws m)) = worker_id m"
  by (simp add: disconnect_unfold split: option.splits)

lemma sets_disconnect:
  "sets (redis (snd (disconnect ws m))) =
     (case ws_to_id m ws of
        None \<Rightarrow> sets (redis m)
      | Some c \<Rightarrow>
          if c \<noteq> [] \<and> \<not> next_fails (redis m)
          then (sets (redis m))(redis_set_key m := sets (redis m) (redis_set_key m) |-| {|c|})
          else sets (redis m))"
  by (simp add: disconnect_unfold split: option.splits)

lemma disconnect_unknown:
  "ws_to_id m ws = None \<Longrightarrow>
   disconnect ws m =
     (let m2 = m\<lparr>ws_to_id := (ws_to_id m)(ws := None), connections := remove1 ws (connections m)\<rparr>;
          m4 = m2\<lparr>redis := after_trip (SCARD (redis_set_key m)) (redis m)\<rparr>
      in if next_fails (redis m) then (Inl RedisConnectionError, m4)
         else (Inr (),
               m4\<lparr>logged := logged m @
                  [(INFO, WsDisconnected (worker_id m) (length (remove1 ws (connections m)))
                            (fcard (sets (redis m) (redis_set_key m))))]\<rparr>))"
  by (simp add: disconnect_unfold local_active_count_def remove1_idem)

section \<open>Effect of connect\<close>

lemma connect_rejected [simp]: "connect ws (Some e) u m = (Inl e, m)"
  by (simp add: connect_def)

lemma connections_connect [simp]:
  "connections (snd (connect ws None u m)) = connections m @ [ws]"
  by (simp add: connect_unfold)

lemma ws_to_id_connect [simp]:
  "ws_to_id (snd (connect ws None u m)) = (ws_to_id m)(ws \<mapsto> str_nat (worker_id m) @ '':'' @ u)"
  by (simp add: connect_unfold)

lemma key_connect [simp]: "redis_set_key (snd (connect ws a u m)) = redis_set_key m"
  by (cases a) (simp_all add: connect_unfold)

lemma worker_connect [simp]: "worker_id (snd (connect ws a u m)) = worker_id m"
  by (cases a) (simp_all add: connect_unfold)

lemma sets_connect:
  "sets (redis (snd (connect ws None u m))) =
     (if next_fails (redis m) then sets (redis m)
      else (sets (redis m))(redis_set_key m :=
              finsert (str_nat (worker_id m) @ '':'' @ u) (sets (redis m) (redis_set_key m))))"
  by (simp add: connect_unfold)

section \<open>Disconnecting a socket that is not registered\<close>

text \<open>
  Claim C10. A \<open>disconnect\<close> of a socket that is neither in the ordered collection nor
  in the mapping leaves the ordered collection, the mapping and the sets of the shared
  store as they were, yet it issues one command to the shared store, the \<open>SCARD\<close> of
  \<open>global_active_count\<close> whose result is only logged, and it raises the store's
  connection error exactly when the store does not answer that command.
\<close>

theorem disconnect_unregistered_round_trip:
  assumes "websocket \<notin> set (connections m)" and "ws_to_id m websocket = None"
  shows "registries (snd (disconnect websocket m)) = registries m
    \<and> journal (redis (snd (disconnect websocket m))) =
        journal (redis m) @ [SCARD (redis_set_key m)]
    \<and> outages (redis (snd (disconnect websocket m))) = tl (outages (redis m))
    \<and> fst (disconnect websocket m) =
        (if next_fails (redis m) then Inl RedisConnectionError else Inr ())"
  using assms
  by (simp add: disconnect_unknown registries_def Let_def remove1_idem fun_upd_idem)

theorem disconnect_unregistered_round_trip_witness:
  "3 \<notin> set (connections (fresh_manager\<lparr>redis := fresh_redis\<lparr>outages := [True]\<rparr>\<rparr>))
   \<and> ws_to_id (fresh_manager\<lparr>redis := fresh_redis\<lparr>outages := [True]\<rparr>\<rparr>) 3 = None
   \<and> registries (snd (disconnect 3 (fresh_manager\<lparr>redis := fresh_redis\<lparr>outages := [True]\<rparr>\<rparr>)))
     = registries (fresh_manager\<lparr>redis := fresh_redis\<lparr>outages := [True]\<rparr>\<rparr>)
   \<and> journal (redis (snd (disconnect 3 (fresh_manager\<lparr>redis := fresh_redis\<lparr>outages := [True]\<rparr>\<rparr>))))
     = [SCARD ''ws:connections'']
   \<and> fst (disconnect 3 (fresh_manager\<lparr>redis := fresh_redis\<lparr>outages := [True]\<rparr>\<rparr>))
     = Inl RedisConnectionError"
  using disconnect_unregistered_round_trip
    [of 3 "fresh_manager\<lparr>redis := fresh_redis\<lparr>outages := [True]\<rparr>\<rparr>"]
  by (simp add: fresh_manager_def fresh_redis_def ConnectionManager_def next_fails_def)

section \<open>Evaluation on the example states\<close>

lemma str_nat_7: "str_nat 7 = ''7''"
  by code_simp

lemma next_fails_Nil [simp]: "outages r = [] \<Longrightarrow> \<not> next_fails r"
  by (simp add: next_fails_def)

lemma outages_connect_Nil [simp]:
  "outages (redis m) = [] \<Longrightarrow> outages (redis (snd (connect ws a u m))) = []"
  by (cases a) (simp_all add: connect_unfold)

lemma outages_disconnect_Nil [simp]:
  "outages (redis m) = [] \<Longrightarrow> outages (redis (snd (disconnect ws m))) = []"
  by (simp add: disconnect_unfold split: option.splits)



section \<open>Idempotence of disconnect\<close>




section \<open>Connect on a registered socket\<close>




section \<open>Invariants of the local registry\<close>













section \<open>The local count\<close>

lemma live_run_calls:
  "distinct (connections m) \<Longrightarrow> \<forall>c\<in>set cs. registry_call c \<Longrightarrow> fresh_connects cs m \<Longrightarrow>
     distinct (connections (run_calls cs m)) \<and>
     set (connections (run_calls cs m)) = connected_not_disconnected cs (set (connections m))"
proof (induction cs arbitrary: m)
  case Nil
  then show ?case by simp
next
  case (Cons c cs)
  show ?case
  proof (cases c)
    case (Connect ws a u)
    show ?thesis
    proof (cases a)
      case None
      with Connect Cons.prems have d: "distinct (connections (run_call c m))"
        and f: "fresh_connects cs (run_call c m)" by simp_all
      from Cons.prems have "\<forall>c\<in>set cs. registry_call c" by simp
      from Cons.IH [OF d this f] Connect None show ?thesis by simp
    next
      case (Some e)
      with Connect Cons.prems Cons.IH [of m] show ?thesis by simp
    qed
  next
    case (Disconnect ws)
    with Cons.prems have d: "distinct (connections (run_call c m))"
      and f: "fresh_connects cs (run_call c m)" by simp_all
    from Cons.prems have "\<forall>c\<in>set cs. registry_call c" by simp
    from Cons.IH [OF d this f] Disconnect Cons.prems(1) show ?thesis by simp
  next
    case (BroadcastLocal message send_text)
    with Cons.prems show ?thesis by simp
  qed
qed

text \<open>
  Claim C1. For every sequence of \<open>connect\<close> and \<open>disconnect\<close> calls on a new
  manager in which each accepted \<open>connect\<close> is on a socket not currently registered,
  \<open>local_active_count\<close> equals the number of sockets that have been connected and not
  yet disconnected, whatever the shared store does during the calls.
\<close>

theorem local_active_count_tracks_calls:
  assumes "\<forall>c\<in>set cs. registry_call c"
    and "fresh_connects cs (ConnectionManager r key pid)"
  shows "local_active_count (run_calls cs (ConnectionManager r key pid)) =
           card (connected_not_disconnected cs {})"
proof -
  have "distinct (connections (ConnectionManager r key pid))"
    and "set (connections (ConnectionManager r key pid)) = {}"
    by (simp_all add: ConnectionManager_def)
  with live_run_calls [of "ConnectionManager r key pid" cs] assms
  have "distinct (connections (run_calls cs (ConnectionManager r key pid)))"
    and "set (connections (run_calls cs (ConnectionManager r key pid))) =
           connected_not_disconnected cs {}"
    by simp_all
  then show ?thesis
    by (metis local_active_count_def distinct_card)
qed

theorem local_active_count_tracks_calls_witness:
  "list_all registry_call example_calls
   \<and> fresh_connects example_calls fresh_manager
   \<and> local_active_count (run_calls example_calls fresh_manager) = 1"
  using local_active_count_tracks_calls [of example_calls fresh_redis "''ws:connections''" 7]
  by (simp add: example_calls_def fresh_manager_def ConnectionManager_def)

section \<open>Broadcast with a store that answers\<close>

lemma reachable_not_next_fails [simp]: "reachable r \<Longrightarrow> \<not> next_fails r"
  by (cases "outages r") (auto simp: reachable_def next_fails_def)

lemma reachable_after_trip [simp]: "reachable r \<Longrightarrow> reachable (after_trip c r)"
  by (cases "outages r") (auto simp: reachable_def)

lemma reachable_sets_update [simp]: "reachable (r\<lparr>sets := s\<rparr>) = reachable r"
  by (simp add: reachable_def)

lemma disconnect_reachable:
  "reachable (redis m) \<Longrightarrow>
     fst (disconnect ws m) = Inr () \<and> reachable (redis (snd (disconnect ws m)))"
  by (simp add: disconnect_unfold split: option.splits)

lemma try_send_reachable:
  assumes "reachable (redis m)" and "tolerated outcome"
  shows "fst (try_send outcome ws m) = Inr () \<and> reachable (redis (snd (try_send outcome ws m)))"
proof (cases outcome)
  case None
  with assms show ?thesis by simp
next
  case (Some e)
  with assms show ?thesis
    by (cases e) (simp_all add: disconnect_reachable)
qed

lemma key_try_send [simp]: "redis_set_key (snd (try_send outcome ws m)) = redis_set_key m"
proof (cases outcome)
  case None
  then show ?thesis by simp
next
  case (Some e)
  then show ?thesis by (cases e) simp_all
qed

lemma connections_try_send:
  "tolerated outcome \<Longrightarrow>
     connections (snd (try_send outcome ws m)) =
       (if outcome = None then connections m else remove1 ws (connections m))"
proof (cases outcome)
  case None
  then show ?thesis by simp
next
  case (Some e)
  assume "tolerated outcome"
  with Some show ?thesis by (cases e) simp_all
qed

lemma ws_to_id_try_send:
  "tolerated outcome \<Longrightarrow>
     ws_to_id (snd (try_send outcome ws m)) =
       (if outcome = None then ws_to_id m else (ws_to_id m)(ws := None))"
proof (cases outcome)
  case None
  then show ?thesis by simp
next
  case (Some e)
  assume "tolerated outcome"
  with Some show ?thesis by (cases e) simp_all
qed

lemma sets_try_send:
  assumes "reachable (redis m)" and "tolerated outcome"
  shows "sets (redis (snd (try_send outcome ws m))) =
       (case ws_to_id m ws of
          None \<Rightarrow> sets (redis m)
        | Some c \<Rightarrow>
            if outcome \<noteq> None \<and> c \<noteq> []
            then (sets (redis m))(redis_set_key m := sets (redis m) (redis_set_key m) |-| {|c|})
            else sets (redis m))"
proof (cases outcome)
  case None
  then show ?thesis by (simp split: option.splits)
next
  case (Some e)
  with assms show ?thesis
    by (cases e) (simp_all add: sets_disconnect split: option.splits)
qed

lemma broadcast_loop_tolerated:
  "reachable (redis m) \<Longrightarrow> \<forall>ws\<in>set xs. tolerated (send ws) \<Longrightarrow>
     broadcast_loop send xs m = (Inr (), xs, after_sends send xs m)"
proof (induction xs arbitrary: m)
  case Nil
  then show ?case by simp
next
  case (Cons ws rest)
  obtain res m1 where t: "try_send (send ws) ws m = (res, m1)"
    by (cases "try_send (send ws) ws m")
  with try_send_reachable [of m "send ws" ws] Cons.prems
  have "res = Inr ()" and "reachable (redis m1)" by simp_all
  with Cons.IH [of m1] Cons.prems t show ?case by simp
qed

lemma reachable_after_sends:
  "reachable (redis m) \<Longrightarrow> \<forall>ws\<in>set xs. tolerated (send ws) \<Longrightarrow>
     reachable (redis (after_sends send xs m))"
  by (induction xs arbitrary: m) (simp_all add: try_send_reachable)

lemma key_after_sends [simp]: "redis_set_key (after_sends send xs m) = redis_set_key m"
  by (induction xs arbitrary: m) simp_all

lemma connections_after_sends:
  "\<forall>ws\<in>set xs. tolerated (send ws) \<Longrightarrow>
     connections (after_sends send xs m) =
       fold remove1 (filter (\<lambda>ws. send ws \<noteq> None) xs) (connections m)"
  by (induction xs arbitrary: m) (simp_all add: connections_try_send)

lemma ws_to_id_after_sends:
  "\<forall>ws\<in>set xs. tolerated (send ws) \<Longrightarrow>
     ws_to_id (after_sends send xs m) =
       (\<lambda>ws. if ws \<in> set xs \<and> send ws \<noteq> None then None else ws_to_id m ws)"
  by (induction xs arbitrary: m) (auto simp add: ws_to_id_try_send fun_eq_iff)

lemma failed_ids_Cons:
  "{c. c \<noteq> [] \<and> (\<exists>w\<in>set (ws # rest). P w \<and> f w = Some c)} =
     (if P ws then {c. c \<noteq> [] \<and> f ws = Some c} else {}) \<union>
     {c. c \<noteq> [] \<and> (\<exists>w\<in>set rest. P w \<and> (if P ws then f(ws := None) else f) w = Some c)}"
proof (cases "P ws")
  case True
  have "(\<exists>w\<in>set (ws # rest). P w \<and> f w = Some c) \<longleftrightarrow>
      f ws = Some c \<or> (\<exists>w\<in>set rest. P w \<and> (f(ws := None)) w = Some c)" for c
    using True by (cases "f ws = Some c") auto
  with True show ?thesis by auto
next
  case False
  then show ?thesis by auto
qed

lemma sets_after_sends:
  "reachable (redis m) \<Longrightarrow> \<forall>ws\<in>set xs. tolerated (send ws) \<Longrightarrow>
     fset (sets (redis (after_sends send xs m)) (redis_set_key m)) =
       fset (sets (redis m) (redis_set_key m)) -
         {c. c \<noteq> [] \<and> (\<exists>ws\<in>set xs. send ws \<noteq> None \<and> ws_to_id m ws = Some c)}"
proof (induction xs arbitrary: m)
  case Nil
  then show ?case by simp
next
  case (Cons ws rest)
  let ?m1 = "snd (try_send (send ws) ws m)"
  let ?k = "redis_set_key m"
  from Cons.prems have r1: "reachable (redis ?m1)" and tol: "tolerated (send ws)"
    and rest: "\<forall>ws\<in>set rest. tolerated (send ws)"
    by (simp_all add: try_send_reachable)
  have ids: "ws_to_id ?m1 = (if send ws \<noteq> None then (ws_to_id m)(ws := None) else ws_to_id m)"
    using tol by (simp add: ws_to_id_try_send)
  have sets1: "fset (sets (redis ?m1) ?k) =
      fset (sets (redis m) ?k) -
        (if send ws \<noteq> None then {c. c \<noteq> [] \<and> ws_to_id m ws = Some c} else {})"
    using sets_try_send [OF Cons.prems(1) tol, of ws]
    by (auto split: option.splits)
  have "fset (sets (redis (after_sends send rest ?m1)) ?k) =
      fset (sets (redis ?m1) ?k) -
        {c. c \<noteq> [] \<and> (\<exists>w\<in>set rest. send w \<noteq> None \<and> ws_to_id ?m1 w = Some c)}"
    using Cons.IH [OF r1 rest] by simp
  also have "\<dots> = fset (sets (redis m) ?k) -
      ((if send ws \<noteq> None then {c. c \<noteq> [] \<and> ws_to_id m ws = Some c} else {}) \<union>
       {c. c \<noteq> [] \<and> (\<exists>w\<in>set rest. send w \<noteq> None \<and>
             (if send ws \<noteq> None then (ws_to_id m)(ws := None) else ws_to_id m) w = Some c)})"
    unfolding sets1 ids by blast
  also have "\<dots> = fset (sets (redis m) ?k) -
      {c. c \<noteq> [] \<and> (\<exists>w\<in>set (ws # rest). send w \<noteq> None \<and> ws_to_id m w = Some c)}"
    unfolding failed_ids_Cons [of ws rest "\<lambda>w. send w \<noteq> None" "ws_to_id m"] ..
  finally show ?case by simp
qed

lemma fold_remove1_filter:
  "\<forall>x\<in>set pre. \<not> F x \<Longrightarrow>
     fold remove1 (filter F xs) (pre @ xs) = pre @ filter (\<lambda>x. \<not> F x) xs"
proof (induction xs arbitrary: pre)
  case Nil
  then show ?case by simp
next
  case (Cons x xs)
  show ?case
  proof (cases "F x")
    case True
    with Cons.prems have "x \<notin> set pre" by auto
    then have "remove1 x (pre @ x # xs) = pre @ xs"
      by (simp add: remove1_append)
    with True Cons.IH [OF Cons.prems] show ?thesis by simp
  next
    case False
    with Cons.prems have "\<forall>y\<in>set (pre @ [x]). \<not> F y" by simp
    from Cons.IH [OF this] False show ?thesis by simp
  qed
qed

text \<open>
  Claim C5, amended. When the shared store answers every command of the call and each
  write to a socket of the snapshot returns or raises an exception that has a handler
  (a WebSocket disconnect, a connection reset, a broken pipe, a runtime error),
  \<open>broadcast_local\<close> returns normally after awaiting \<open>send_text\<close> on every socket of
  the snapshot in connect order; the sockets whose write raised are gone from the ordered
  collection and from the mapping, and their identifiers (never empty as \<open>connect\<close>
  builds them) from the distributed registry; the sockets whose write returned are still
  in the ordered collection, with their mapping entries unchanged.
\<close>

theorem broadcast_local_survives_send_failures:
  assumes "reachable (redis m)"
    and "\<forall>ws\<in>set (connections m). tolerated (send_text ws message)"
  shows "fst (broadcast_local message send_text m) = Inr ()
    \<and> fst (snd (broadcast_local message send_text m)) = connections m
    \<and> connections (snd (snd (broadcast_local message send_text m))) =
        filter (\<lambda>ws. send_text ws message = None) (connections m)
    \<and> ws_to_id (snd (snd (broadcast_local message send_text m))) =
        (\<lambda>ws. if ws \<in> set (connections m) \<and> send_text ws message \<noteq> None then None
              else ws_to_id m ws)
    \<and> fset (sets (redis (snd (snd (broadcast_local message send_text m)))) (redis_set_key m)) =
        fset (sets (redis m) (redis_set_key m)) -
          {c. c \<noteq> [] \<and> (\<exists>ws\<in>set (connections m).
                 send_text ws message \<noteq> None \<and> ws_to_id m ws = Some c)}"
proof -
  let ?m1 = "m\<lparr>logged := logged m @
      [(INFO, LocalBroadcast (worker_id m) message (local_active_count m))]\<rparr>"
  let ?send = "\<lambda>ws. send_text ws message"
  have r: "reachable (redis ?m1)" and tol: "\<forall>ws\<in>set (connections m). tolerated (?send ws)"
    using assms by simp_all
  have run: "broadcast_local message send_text m =
      (Inr (), connections m, after_sends ?send (connections m) ?m1)"
    using broadcast_loop_tolerated [OF r tol] by (simp add: broadcast_local_def Let_def)
  have "connections (after_sends ?send (connections m) ?m1) =
      filter (\<lambda>ws. send_text ws message = None) (connections m)"
    using connections_after_sends [OF tol, of ?m1]
      fold_remove1_filter [of "[]" "\<lambda>ws. send_text ws message \<noteq> None" "connections m"]
    by simp
  moreover have "ws_to_id (after_sends ?send (connections m) ?m1) =
      (\<lambda>ws. if ws \<in> set (connections m) \<and> send_text ws message \<noteq> None then None
            else ws_to_id m ws)"
    by (auto simp add: ws_to_id_after_sends [OF tol] fun_eq_iff)
  moreover have "fset (sets (redis (after_sends ?send (connections m) ?m1)) (redis_set_key m)) =
      fset (sets (redis m) (redis_set_key m)) -
        {c. c \<noteq> [] \<and> (\<exists>ws\<in>set (connections m).
               send_text ws message \<noteq> None \<and> ws_to_id m ws = Some c)}"
    using sets_after_sends [OF r tol] by simp
  ultimately show ?thesis
    by (simp add: run)
qed


theorem broadcast_local_survives_send_failures_witness:
  "reachable (redis two_connected)
   \<and> list_all (\<lambda>ws. tolerated (broken_pipe_1 ws ''hi'')) (connections two_connected)
   \<and> fst (broadcast_local ''hi'' broken_pipe_1 two_connected) = Inr ()
   \<and> fst (snd (broadcast_local ''hi'' broken_pipe_1 two_connected)) = [1, 2]
   \<and> connections (snd (snd (broadcast_local ''hi'' broken_pipe_1 two_connected))) = [2]
   \<and> ws_to_id (snd (snd (broadcast_local ''hi'' broken_pipe_1 two_connected))) 1 = None
   \<and> ws_to_id (snd (snd (broadcast_local ''hi'' broken_pipe_1 two_connected))) 2 = Some ''7:b''
   \<and> fset (sets (redis (snd (snd (broadcast_local ''hi'' broken_pipe_1 two_connected))))
          ''ws:connections'') = {''7:b''}"
proof -
  have c: "connections two_connected = [1, 2]"
    and i1: "ws_to_id two_connected 1 = Some ''7:a''"
    and i2: "ws_to_id two_connected 2 = Some ''7:b''"
    and k: "redis_set_key two_connected = ''ws:connections''"
    and o: "outages (redis two_connected) = []"
    and s: "sets (redis two_connected) ''ws:connections'' = {|''7:b'', ''7:a''|}"
    by (simp_all add: two_connected_def once_connected_def fresh_manager_def
        ConnectionManager_def sets_connect fresh_redis_def str_nat_7)
  have ids: "{c. c \<noteq> [] \<and> (\<exists>ws\<in>set [1, 2]. broken_pipe_1 ws ''hi'' \<noteq> None \<and>
      ws_to_id two_connected ws = Some c)} = {''7:a''}"
    using i1 by (auto simp: broken_pipe_1_def)
  have r: "reachable (redis two_connected)"
    by (simp add: reachable_def o)
  have t: "\<forall>ws\<in>set (connections two_connected). tolerated (broken_pipe_1 ws ''hi'')"
    by (simp add: c broken_pipe_1_def)
  show ?thesis
    using broadcast_local_survives_send_failures
      [of two_connected broken_pipe_1 "''hi''", OF r t] r i1 i2
    by (auto simp add: c k s ids broken_pipe_1_def)
qed

text \<open>
  Claim C5 as stated fails when the shared store does not answer: the write to socket 1
  ends in a broken pipe, the \<open>disconnect\<close> in the handler raises the store's error,
  \<open>broadcast_local\<close> ends with that error, socket 2 is never written to and the
  identifier of socket 1 stays in the distributed registry.
\<close>

theorem broadcast_local_store_down_counterexample:
  "broken_pipe_1 1 ''hi'' = Some BrokenPipeError
   \<and> connections store_down = [1, 2]
   \<and> fst (broadcast_local ''hi'' broken_pipe_1 store_down) = Inl RedisConnectionError
   \<and> fst (snd (broadcast_local ''hi'' broken_pipe_1 store_down)) = [1]
   \<and> ws_to_id store_down 1 = Some ''7:a''
   \<and> ''7:a'' |\<in>| sets (redis (snd (snd (broadcast_local ''hi'' broken_pipe_1 store_down))))
                   ''ws:connections''"
  by (simp add: store_down_def two_connected_def once_connected_def fresh_manager_def
      ConnectionManager_def fresh_redis_def str_nat_7 broken_pipe_1_def broadcast_local_def
      connect_def sadd_eq disconnect_unfold next_fails_def after_trip_def local_active_count_def)

section \<open>Startup resets the distributed registry\<close>

lemma delete_eq:
  "delete key r =
     (if next_fails r then (Inl RedisConnectionError, after_trip (DEL key) r)
      else (Inr (if sets r key = {||} then 0 else 1),
            (after_trip (DEL key) r)\<lparr>sets := (sets r)(key := {||})\<rparr>))"
  by (simp add: delete_def round_trip_eq)

lemma subscribe_eq:
  "subscribe ch r =
     (if next_fails r then (Inl RedisConnectionError, after_trip (SUBSCRIBE ch) r)
      else (Inr (), after_trip (SUBSCRIBE ch) r))"
  by (simp add: subscribe_def round_trip_eq)

lemma ping_eq:
  "ping r =
     (if next_fails r then (Inl RedisConnectionError, after_trip PING r)
      else (Inr True, after_trip PING r))"
  by (simp add: ping_def round_trip_eq)

lemma setup_lifespan_completes:
  assumes "setup_lifespan cfg pid r0 = Inr ctx"
  shows "manager ctx =
      (ConnectionManager
         ((after_trip (SUBSCRIBE (redis_broadcast_channel cfg))
            (after_trip (DEL (ws_connections_key cfg)) r0))
          \<lparr>sets := (sets r0)(ws_connections_key cfg := {||})\<rparr>)
         (ws_connections_key cfg) pid)
      \<lparr>logged := [(INFO, ConnectingToRedis), (INFO, StartupComplete)]\<rparr>"
  using assms
  by (auto simp add: setup_lifespan_def delete_eq subscribe_eq ConnectionManager_def Let_def
      after_trip_def split: if_splits)

text \<open>
  Claim C9. Whatever the shared store holds under the connection-set key before startup,
  once \<open>setup_lifespan\<close> has completed the key has been deleted (the \<open>DEL\<close> is the
  first command issued, before the manager is built on that key), its set is empty, no
  socket is registered, and \<open>global_active_count\<close> on the new manager returns 0; the
  only other outcome of that query is the store's own error when it does not answer.
\<close>

theorem startup_resets_distributed_state:
  assumes "setup_lifespan cfg pid r0 = Inr ctx"
  shows "journal (redis (manager ctx)) =
           journal r0 @ [DEL (ws_connections_key cfg), SUBSCRIBE (redis_broadcast_channel cfg)]
    \<and> redis_set_key (manager ctx) = ws_connections_key cfg
    \<and> sets (redis (manager ctx)) (ws_connections_key cfg) = {||}
    \<and> connections (manager ctx) = []
    \<and> fst (global_active_count (manager ctx)) =
        (if next_fails (redis (manager ctx)) then Inl RedisConnectionError else Inr 0)"
  by (simp add: setup_lifespan_completes [OF assms] ConnectionManager_def
      global_active_count_eq)

theorem startup_resets_distributed_state_witness:
  "sets stale_redis ''ws:connections'' = {|''41:old-1'', ''41:old-2''|}
   \<and> (case setup_lifespan default_config 7 stale_redis of
         Inl e \<Rightarrow> False
       | Inr ctx \<Rightarrow>
           journal (redis (manager ctx)) = [DEL ''ws:connections'', SUBSCRIBE ''ws:broadcast'']
           \<and> sets (redis (manager ctx)) ''ws:connections'' = {||}
           \<and> fst (global_active_count (manager ctx)) = Inr 0)"
proof (cases "setup_lifespan default_config 7 stale_redis")
  case (Inl e)
  then show ?thesis
    by (simp add: setup_lifespan_def delete_eq subscribe_eq next_fails_def stale_redis_def
        Let_def ConnectionManager_def split: if_splits)
next
  case (Inr ctx)
  have "outages (redis (manager ctx)) = []"
    by (simp add: setup_lifespan_completes [OF Inr] ConnectionManager_def stale_redis_def)
  with startup_resets_distributed_state [OF Inr] Inr show ?thesis
    by (simp add: default_config_def stale_redis_def)
qed

section \<open>Health with an unreachable store\<close>

lemma health_eq:
  "fst (health m) =
     (if next_fails (after_trip PING (redis m)) then Inl RedisConnectionError
      else Inr \<lparr>status = (if next_fails (redis m) then ''degraded'' else ''ok''),
                redis_ok = \<not> next_fails (redis m),
                global_active_connections = fcard (sets (redis m) (redis_set_key m))\<rparr>)"
  by (simp add: health_def ping_eq global_active_count_eq Let_def)

text \<open>
  Claim C8. With a store that answers neither the \<open>PING\<close> nor the \<open>SCARD\<close> of a
  health request, \<open>health\<close> does not return a response with status \<open>degraded\<close>: the
  failure of the ping is caught, the failure of \<open>global_active_count\<close> after it is
  not, and the request ends with the store's error. By \<open>health_eq\<close> the status
  \<open>degraded\<close> is returned only when the ping fails and the query after it succeeds.
\<close>

theorem health_store_unreachable:
  "fst (health (two_connected\<lparr>redis := (redis two_connected)\<lparr>outages := [True, True]\<rparr>\<rparr>)) =
     Inl RedisConnectionError"
  by (simp add: health_eq next_fails_def)

section \<open>Termination of the drain loop\<close>

lemma iteration_start_Suc:
  "iteration_start start interval delay (Suc i) =
     reading start interval delay i + max 0 interval * 1000000"
  by (simp add: reading_def)





section \<open>Termination of the broadcast relay\<close>

lemma received_none [simp]: "received g i i = []"
  by (simp add: received_def)

lemma received_step:
  "i < n \<Longrightarrow>
     received g i n =
       (case g i of Inr (Some msg) \<Rightarrow> [data msg] | _ \<Rightarrow> []) @ received g (Suc i) n"
  by (simp add: received_def upt_conv_Cons)

lemma after_polls_none [simp]: "after_polls g st i i m = m"
  by (simp add: after_polls_def)

lemma after_polls_step:
  "i < n \<Longrightarrow> after_polls g st i n m = after_polls g st (Suc i) n (relay_step g st i m)"
  by (simp add: after_polls_def upt_conv_Cons)

lemma relay_step_simps [simp]:
  "g i = Inl e \<Longrightarrow> relay_step g st i m = m"
  "g i = Inr None \<Longrightarrow> relay_step g st i m = m"
  "g i = Inr (Some msg) \<Longrightarrow>
     relay_step g st i m = snd (snd (broadcast_local (data msg) (st i) m))"
  by (simp_all add: relay_step_def)

text \<open>
  The relay from iteration \<open>i\<close> on: where it stops, what it has forwarded, the manager
  it leaves and the exception it ends with, if any.
\<close>

lemma listener_loop_stops:
  assumes "is_set k" and "\<forall>j<k. \<not> is_set j"
  shows "i \<le> k \<Longrightarrow>
     \<exists>res n.
       listener_loop is_set g st i fwd m =
         Some (res, n, fwd @ received g i n,
           (if res = Inr ()
            then (after_polls g st i n m)
                   \<lparr>logged := logged (after_polls g st i n m) @ [(INFO, ListenerStopping)]\<rparr>
            else after_polls g st i n m))
       \<and> i \<le> n \<and> n \<le> k \<and> (res = Inr () \<longrightarrow> n = k)
       \<and> (\<forall>e. res = Inl e \<longrightarrow>
             i < n \<and>
             (g (n - 1) = Inl e \<or>
              (\<exists>msg. g (n - 1) = Inr (Some msg) \<and>
                 fst (broadcast_local (data msg) (st (n - 1)) (after_polls g st i (n - 1) m))
                   = Inl e)))"
proof (induction "k - i" arbitrary: i fwd m)
  case 0
  then have "i = k" by simp
  with assms(1) have "listener_loop is_set g st i fwd m =
      Some (Inr (), i, fwd, m\<lparr>logged := logged m @ [(INFO, ListenerStopping)]\<rparr>)"
    by (subst listener_loop.simps) simp
  with \<open>i = k\<close> show ?case by simp
next
  case (Suc d)
  then have i: "i < k" and d: "d = k - Suc i" and le: "Suc i \<le> k" by simp_all
  with assms(2) have open_: "\<not> is_set i" by simp
  have continue:
    "\<exists>res n.
       listener_loop is_set g st i fwd m =
         Some (res, n, fwd @ received g i n,
           (if res = Inr ()
            then (after_polls g st i n m)
                   \<lparr>logged := logged (after_polls g st i n m) @ [(INFO, ListenerStopping)]\<rparr>
            else after_polls g st i n m))
       \<and> i \<le> n \<and> n \<le> k \<and> (res = Inr () \<longrightarrow> n = k)
       \<and> (\<forall>e. res = Inl e \<longrightarrow>
             i < n \<and>
             (g (n - 1) = Inl e \<or>
              (\<exists>msg. g (n - 1) = Inr (Some msg) \<and>
                 fst (broadcast_local (data msg) (st (n - 1)) (after_polls g st i (n - 1) m))
                   = Inl e)))"
    if next_: "listener_loop is_set g st i fwd m =
        listener_loop is_set g st (Suc i) (fwd @ payload) (relay_step g st i m)"
      and payload: "(case g i of Inr (Some msg) \<Rightarrow> [data msg] | _ \<Rightarrow> []) = payload"
    for payload
  proof -
    from Suc.hyps(1) [OF d le, of "fwd @ payload" "relay_step g st i m"]
    obtain res n where
      run: "listener_loop is_set g st (Suc i) (fwd @ payload) (relay_step g st i m) =
         Some (res, n, (fwd @ payload) @ received g (Suc i) n,
           (if res = Inr ()
            then (after_polls g st (Suc i) n (relay_step g st i m))
                   \<lparr>logged := logged (after_polls g st (Suc i) n (relay_step g st i m)) @
                      [(INFO, ListenerStopping)]\<rparr>
            else after_polls g st (Suc i) n (relay_step g st i m)))"
      and n: "Suc i \<le> n" "n \<le> k" and ok: "res = Inr () \<longrightarrow> n = k"
      and err: "\<forall>e. res = Inl e \<longrightarrow>
             Suc i < n \<and>
             (g (n - 1) = Inl e \<or>
              (\<exists>msg. g (n - 1) = Inr (Some msg) \<and>
                 fst (broadcast_local (data msg) (st (n - 1))
                        (after_polls g st (Suc i) (n - 1) (relay_step g st i m)))
                   = Inl e))"
      by blast
    from n have lt: "i < n" by simp
    have state: "after_polls g st (Suc i) n (relay_step g st i m) = after_polls g st i n m"
      using lt by (simp add: after_polls_step)
    have fwd: "(fwd @ payload) @ received g (Suc i) n = fwd @ received g i n"
      using lt payload by (simp add: received_step)
    have "\<forall>e. res = Inl e \<longrightarrow>
             i < n \<and>
             (g (n - 1) = Inl e \<or>
              (\<exists>msg. g (n - 1) = Inr (Some msg) \<and>
                 fst (broadcast_local (data msg) (st (n - 1)) (after_polls g st i (n - 1) m))
                   = Inl e))"
    proof (intro allI impI)
      fix e assume "res = Inl e"
      with err have l: "Suc i < n"
        and c: "g (n - 1) = Inl e \<or>
              (\<exists>msg. g (n - 1) = Inr (Some msg) \<and>
                 fst (broadcast_local (data msg) (st (n - 1))
                        (after_polls g st (Suc i) (n - 1) (relay_step g st i m)))
                   = Inl e)"
        by simp_all
      from l have "after_polls g st (Suc i) (n - 1) (relay_step g st i m) =
          after_polls g st i (n - 1) m"
        by (simp add: after_polls_step)
      with c l show "i < n \<and>
             (g (n - 1) = Inl e \<or>
              (\<exists>msg. g (n - 1) = Inr (Some msg) \<and>
                 fst (broadcast_local (data msg) (st (n - 1)) (after_polls g st i (n - 1) m))
                   = Inl e))"
        by simp
    qed
    with next_ run n ok lt show ?thesis
      unfolding state fwd by (intro exI [of _ res] exI [of _ n]) simp
  qed
  show ?case
  proof (cases "g i")
    case (Inl e)
    with open_ have "listener_loop is_set g st i fwd m = Some (Inl e, Suc i, fwd, m)"
      by (subst listener_loop.simps) simp
    with Inl le show ?thesis
      by (intro exI [of _ "Inl e"] exI [of _ "Suc i"])
         (simp add: received_step after_polls_step)
  next
    case (Inr polled)
    show ?thesis
    proof (cases polled)
      case None
      with Inr open_ have "listener_loop is_set g st i fwd m =
          listener_loop is_set g st (Suc i) (fwd @ []) (relay_step g st i m)"
        by (subst listener_loop.simps) simp
      then show ?thesis
        using Inr None by (intro continue) simp_all
    next
      case (Some msg)
      obtain sent attempted m1 where
        b: "broadcast_local (data msg) (st i) m = (sent, attempted, m1)"
        by (cases "broadcast_local (data msg) (st i) m")
      show ?thesis
      proof (cases sent)
        case (Inl e)
        with Inr Some open_ b have "listener_loop is_set g st i fwd m =
            Some (Inl e, Suc i, fwd @ [data msg], m1)"
          by (subst listener_loop.simps) simp
        with Inr Some le b Inl show ?thesis
          by (intro exI [of _ "Inl e"] exI [of _ "Suc i"])
             (simp add: received_step after_polls_step)
      next
        case (Inr u)
        with \<open>g i = Inr polled\<close> Some open_ b have "listener_loop is_set g st i fwd m =
            listener_loop is_set g st (Suc i) (fwd @ [data msg]) (relay_step g st i m)"
          by (subst listener_loop.simps) simp
        then show ?thesis
          using \<open>g i = Inr polled\<close> Some by (intro continue) simp_all
      qed
    qed
  qed
qed

lemma listener_loop_idle:
  assumes "is_set k" and "\<forall>j<k. \<not> is_set j \<and> g j = Inr None"
  shows "i \<le> k \<Longrightarrow>
     listener_loop is_set g st i fwd m =
       Some (Inr (), k, fwd, m\<lparr>logged := logged m @ [(INFO, ListenerStopping)]\<rparr>)"
proof (induction "k - i" arbitrary: i)
  case 0
  then have "i = k" by simp
  with assms(1) show ?case
    by (subst listener_loop.simps) simp
next
  case (Suc d)
  then have i: "i < k" and d: "d = k - Suc i" and le: "Suc i \<le> k" by simp_all
  with assms(2) have "\<not> is_set i" and "g i = Inr None" by simp_all
  then have "listener_loop is_set g st i fwd m = listener_loop is_set g st (Suc i) fwd m"
    by (subst listener_loop.simps) simp
  with Suc.hyps(1) [OF d le] show ?case by simp
qed

text \<open>
  Claim C7. The relay evaluates the stop event once at the head of each iteration. If
  check \<open>k\<close> is the first to see the event set, the loop returns having made at most
  \<open>k\<close> polls, exactly \<open>k\<close> when it returns normally: the poll in flight when the event
  was raised is the last one. The payloads handed to \<open>broadcast_local\<close> are exactly those
  of the messages that the polls made have returned, unchanged, each once and in order,
  and the manager the loop leaves is the one that these calls of \<open>broadcast_local\<close>,
  one per message and with the message's payload, produce in that order, followed by the
  loop's own closing log record when it returns normally; so nothing is forwarded after
  the loop has stopped. An exception ends the loop only as the exception of its last poll
  or of \<open>broadcast_local\<close> on the message of its last poll. When every poll times out the
  loop leaves the manager as it was but for its own two log records.
\<close>

theorem broadcast_listener_stops:
  assumes "is_set k" and "\<forall>j<k. \<not> is_set j"
  shows "\<exists>res n m'.
      broadcast_listener cfg is_set get_message send_text m =
        Some (res, n, received get_message 0 n, m')
      \<and> n \<le> k
      \<and> (res = Inr () \<longrightarrow> n = k)
      \<and> m' =
          (if res = Inr ()
           then (after_polls get_message send_text 0 n
                   (m\<lparr>logged := logged m @
                        [(INFO, ListenerStarted (redis_broadcast_channel cfg))]\<rparr>))
                \<lparr>logged :=
                   logged (after_polls get_message send_text 0 n
                     (m\<lparr>logged := logged m @
                          [(INFO, ListenerStarted (redis_broadcast_channel cfg))]\<rparr>)) @
                   [(INFO, ListenerStopping)]\<rparr>
           else after_polls get_message send_text 0 n
                  (m\<lparr>logged := logged m @
                       [(INFO, ListenerStarted (redis_broadcast_channel cfg))]\<rparr>))
      \<and> (\<forall>e. res = Inl e \<longrightarrow>
            0 < n \<and>
            (get_message (n - 1) = Inl e \<or>
             (\<exists>msg. get_message (n - 1) = Inr (Some msg) \<and>
                fst (broadcast_local (data msg) (send_text (n - 1))
                       (after_polls get_message send_text 0 (n - 1)
                          (m\<lparr>logged := logged m @
                               [(INFO, ListenerStarted (redis_broadcast_channel cfg))]\<rparr>)))
                  = Inl e)))
      \<and> ((\<forall>j<k. get_message j = Inr None) \<longrightarrow>
            res = Inr () \<and> n = k \<and>
            m' = m\<lparr>logged := logged m @
                   [(INFO, ListenerStarted (redis_broadcast_channel cfg)),
                    (INFO, ListenerStopping)]\<rparr>)"
proof -
  let ?m0 = "m\<lparr>logged := logged m @ [(INFO, ListenerStarted (redis_broadcast_channel cfg))]\<rparr>"
  from listener_loop_stops [OF assms, of 0 get_message send_text "[]" ?m0]
  obtain res n where
    run: "listener_loop is_set get_message send_text 0 [] ?m0 =
        Some (res, n, received get_message 0 n,
          (if res = Inr ()
           then (after_polls get_message send_text 0 n ?m0)
                  \<lparr>logged := logged (after_polls get_message send_text 0 n ?m0) @
                     [(INFO, ListenerStopping)]\<rparr>
           else after_polls get_message send_text 0 n ?m0))"
    and n: "n \<le> k" and ok: "res = Inr () \<longrightarrow> n = k"
    and err: "\<forall>e. res = Inl e \<longrightarrow>
            0 < n \<and>
            (get_message (n - 1) = Inl e \<or>
             (\<exists>msg. get_message (n - 1) = Inr (Some msg) \<and>
                fst (broadcast_local (data msg) (send_text (n - 1))
                       (after_polls get_message send_text 0 (n - 1) ?m0))
                  = Inl e))"
    by auto
  have "res = Inr () \<and> n = k \<and>
      (if res = Inr ()
           then (after_polls get_message send_text 0 n ?m0)
                  \<lparr>logged := logged (after_polls get_message send_text 0 n ?m0) @
                     [(INFO, ListenerStopping)]\<rparr>
           else after_polls get_message send_text 0 n ?m0) =
        m\<lparr>logged := logged m @
             [(INFO, ListenerStarted (redis_broadcast_channel cfg)), (INFO, ListenerStopping)]\<rparr>"
    if idle: "\<forall>j<k. get_message j = Inr None"
  proof -
    from assms(2) idle have "\<forall>j<k. \<not> is_set j \<and> get_message j = Inr None" by simp
    from listener_loop_idle [OF assms(1) this, of 0 send_text "[]" ?m0]
    have "listener_loop is_set get_message send_text 0 [] ?m0 =
        Some (Inr (), k, [],
          m\<lparr>logged := logged m @
             [(INFO, ListenerStarted (redis_broadcast_channel cfg)), (INFO, ListenerStopping)]\<rparr>)"
      by simp
    then have "(res, n, received get_message 0 n,
          (if res = Inr ()
           then (after_polls get_message send_text 0 n ?m0)
                  \<lparr>logged := logged (after_polls get_message send_text 0 n ?m0) @
                     [(INFO, ListenerStopping)]\<rparr>
           else after_polls get_message send_text 0 n ?m0)) =
        (Inr (), k, [],
          m\<lparr>logged := logged m @
             [(INFO, ListenerStarted (redis_broadcast_channel cfg)), (INFO, ListenerStopping)]\<rparr>)"
      unfolding run option.inject .
    then show ?thesis
      unfolding prod.inject by blast
  qed
  with run n ok err show ?thesis
    unfolding broadcast_listener_def by blast
qed

lemma fminus_two_ids: "{|''7:b'', ''7:a''|} |-| {|''7:a''|} = {|''7:b''|}"
  by auto

lemma two_connected_connections: "connections two_connected = [1, 2]"
  by (simp add: two_connected_def once_connected_def fresh_manager_def ConnectionManager_def)

theorem broadcast_listener_stops_witness:
  "stop_at_3 3
   \<and> list_all (\<lambda>j. \<not> stop_at_3 j) [0..<3]
   \<and> (case broadcast_listener default_config stop_at_3 hi_at_1 pipe_1_broken two_connected of
         None \<Rightarrow> False
       | Some (res, n, forwarded, m') \<Rightarrow>
           res = Inr () \<and> n = 3 \<and> forwarded = [''hi'']
           \<and> m' =
               (after_polls hi_at_1 pipe_1_broken 0 3
                  (two_connected\<lparr>logged := logged two_connected @
                     [(INFO, ListenerStarted ''ws:broadcast'')]\<rparr>))
               \<lparr>logged :=
                  logged (after_polls hi_at_1 pipe_1_broken 0 3
                    (two_connected\<lparr>logged := logged two_connected @
                       [(INFO, ListenerStarted ''ws:broadcast'')]\<rparr>)) @
                  [(INFO, ListenerStopping)]\<rparr>
           \<and> connections m' = [2]
           \<and> ws_to_id m' 1 = None
           \<and> sets (redis m') ''ws:connections'' = {|''7:b''|}
           \<and> logged m' =
               logged two_connected @
                 [(INFO, ListenerStarted ''ws:broadcast''), (INFO, LocalBroadcast 7 ''hi'' 2),
                  (INFO, WsDisconnected 7 1 1), (INFO, ListenerStopping)])"
proof -
  have s: "stop_at_3 3" and o: "\<forall>j<3. \<not> stop_at_3 j"
    by (simp_all add: stop_at_3_def)
  from broadcast_listener_stops [OF s o, of default_config hi_at_1 pipe_1_broken two_connected]
  obtain res n m' where
    run: "broadcast_listener default_config stop_at_3 hi_at_1 pipe_1_broken two_connected =
        Some (res, n, received hi_at_1 0 n, m')"
    and n: "n \<le> 3" and ok: "res = Inr () \<longrightarrow> n = 3"
    and m': "m' =
          (if res = Inr ()
           then (after_polls hi_at_1 pipe_1_broken 0 n
                   (two_connected\<lparr>logged := logged two_connected @
                        [(INFO, ListenerStarted (redis_broadcast_channel default_config))]\<rparr>))
                \<lparr>logged :=
                   logged (after_polls hi_at_1 pipe_1_broken 0 n
                     (two_connected\<lparr>logged := logged two_connected @
                          [(INFO, ListenerStarted (redis_broadcast_channel default_config))]\<rparr>)) @
                   [(INFO, ListenerStopping)]\<rparr>
           else after_polls hi_at_1 pipe_1_broken 0 n
                  (two_connected\<lparr>logged := logged two_connected @
                       [(INFO, ListenerStarted (redis_broadcast_channel default_config))]\<rparr>))"
    by blast
  have facts: "connections two_connected = [1, 2]"
    "ws_to_id two_connected 1 = Some ''7:a''"
    "redis_set_key two_connected = ''ws:connections''"
    "worker_id two_connected = 7"
    "outages (redis two_connected) = []"
    "sets (redis two_connected) ''ws:connections'' = {|''7:b'', ''7:a''|}"
    by (simp_all add: two_connected_def once_connected_def fresh_manager_def
        ConnectionManager_def sets_connect fresh_redis_def str_nat_7)
  have ev: "case broadcast_listener default_config stop_at_3 hi_at_1 pipe_1_broken two_connected of
         None \<Rightarrow> False
       | Some (r, c, forwarded, m1) \<Rightarrow>
           r = Inr () \<and> c = 3 \<and> forwarded = [''hi'']
           \<and> connections m1 = [2]
           \<and> ws_to_id m1 1 = None
           \<and> sets (redis m1) ''ws:connections'' = {|''7:b''|}
           \<and> logged m1 =
               logged two_connected @
                 [(INFO, ListenerStarted ''ws:broadcast''), (INFO, LocalBroadcast 7 ''hi'' 2),
                  (INFO, WsDisconnected 7 1 1), (INFO, ListenerStopping)]"
    using facts
    by (simp add: broadcast_listener_def listener_loop.simps stop_at_3_def hi_at_1_def
        pipe_1_broken_def broken_pipe_1_def broadcast_local_def local_active_count_def
        default_config_def disconnect_unfold next_fails_def fminus_two_ids
        fcard_finsert_if)
  have la: "list_all (\<lambda>j. \<not> stop_at_3 j) [0..<3]"
    by (simp add: stop_at_3_def upt_rec)
  from run ev have "res = Inr ()" by simp
  with ok have "n = 3" by simp
  with run ev m' \<open>res = Inr ()\<close> s la show ?thesis
    by (simp add: default_config_def)
qed


end
